theory Spec2Isabelle
  imports Main "HOL-Library.Product_Lexorder"
begin

section \<open>The temporary outbox and its drain service\<close>

text \<open>
  A shallow embedding of \<^verbatim>\<open>app/models/outbox.py\<close>,
  \<^verbatim>\<open>app/services/drain_service.py\<close> and \<^verbatim>\<open>app/routes/drain.py\<close>.
  Timestamps (\<^verbatim>\<open>DateTime\<close> columns, \<^verbatim>\<open>datetime.utcnow()\<close>) are natural numbers, a
  nullable column is an \<open>option\<close>, Python integers are \<open>int\<close>.
\<close>

subsection \<open>The table \<^verbatim>\<open>temp_outbox\<close>\<close>

type_synonym timestamp = nat

text \<open>The columns of \<^verbatim>\<open>TempOutbox\<close>; the column \<^verbatim>\<open>id\<close> is \<open>id_col\<close> here.\<close>

record TempOutbox =
  id_col :: int
  room_id :: string
  sender_handle :: string
  cipher_blob :: string
  filter_version :: int
  queued_at :: timestamp
  delivered_at :: "timestamp option"
  deleted_at :: "timestamp option"

text \<open>
  A table is the list of its rows in the order in which the database engine visits them.
  SQL leaves the relative order of rows with equal \<^verbatim>\<open>ORDER BY\<close> keys to the engine, so the
  order of the list is the only thing that decides ties below.
\<close>

type_synonym table = "TempOutbox list"

text \<open>The filter \<^verbatim>\<open>delivered_at IS NULL AND deleted_at IS NULL\<close> of both queries.\<close>

definition is_pending :: "TempOutbox \<Rightarrow> bool" where
  "is_pending m = (delivered_at m = None \<and> deleted_at m = None)"

text \<open>
  The query of \<^verbatim>\<open>drain_batch\<close>, lines 39-48: filter, \<^verbatim>\<open>order_by(queued_at.asc())\<close>,
  \<^verbatim>\<open>limit(batch_size)\<close>. The sort key is \<open>queued_at\<close> alone; \<open>sort_key\<close> is a stable
  insertion sort, so rows with equal keys keep the order of the table. The limit is a
  natural number: a negative \<^verbatim>\<open>LIMIT\<close> is not a query.
\<close>

definition select_pending :: "nat \<Rightarrow> table \<Rightarrow> TempOutbox list" where
  "select_pending batch_size rows = take batch_size (sort_key queued_at (filter is_pending rows))"

text \<open>The query of \<^verbatim>\<open>drain_status\<close>: the same filter, then \<^verbatim>\<open>count()\<close>.\<close>

definition pending_count :: "table \<Rightarrow> nat" where
  "pending_count rows = length (filter is_pending rows)"

text \<open>
  The statement of lines 74-81:
  \<^verbatim>\<open>UPDATE temp_outbox SET delivered_at = :now WHERE id IN (:delivered_ids)\<close>.
  Its only condition is the membership of the id.
\<close>

definition mark_delivered :: "int list \<Rightarrow> timestamp \<Rightarrow> table \<Rightarrow> table" where
  "mark_delivered ids now rows =
     map (\<lambda>m. if id_col m \<in> set ids then m\<lparr>delivered_at := Some now\<rparr> else m) rows"

subsection \<open>One delivery attempt\<close>

text \<open>
  What the call \<^verbatim>\<open>client.post(...)\<close> does: it returns a response with a status code, or
  it raises (a timeout, a connection error, or any other exception raised while the request
  is built or sent).
\<close>

datatype attempt = Response int | TimeoutException | ConnectError | OtherException

text \<open>
  \<^verbatim>\<open>_deliver_to_primary\<close>: \<^verbatim>\<open>return response.status_code == 200\<close>, and
  \<^verbatim>\<open>except Exception: return False\<close>.
\<close>

fun deliver_to_primary :: "attempt \<Rightarrow> bool" where
  "deliver_to_primary (Response status_code) = (status_code = 200)"
| "deliver_to_primary TimeoutException = False"
| "deliver_to_primary ConnectError = False"
| "deliver_to_primary OtherException = False"

text \<open>The success statuses in the words of the specification: the 2xx class.\<close>

definition is_2xx :: "int \<Rightarrow> bool" where
  "is_2xx status_code = (200 \<le> status_code \<and> status_code < 300)"

subsection \<open>One drain cycle\<close>

text \<open>
  The loop of lines 57-70. It appends the id of each message to \<open>delivered_ids\<close> or to
  \<open>failed_ids\<close>; the third list records the calls of \<^verbatim>\<open>_deliver_to_primary\<close> in order.
  The \<^verbatim>\<open>except\<close> branch of the loop appends to \<open>failed_ids\<close> as the \<^verbatim>\<open>else\<close> branch does.
\<close>

fun deliver_loop ::
  "(TempOutbox \<Rightarrow> attempt) \<Rightarrow> TempOutbox list \<Rightarrow> int list \<times> int list \<times> int list
     \<Rightarrow> int list \<times> int list \<times> int list" where
  "deliver_loop net [] acc = acc"
| "deliver_loop net (message # rest) (delivered_ids, failed_ids, posts) =
     (if deliver_to_primary (net message)
      then deliver_loop net rest (delivered_ids @ [id_col message], failed_ids, posts @ [id_col message])
      else deliver_loop net rest (delivered_ids, failed_ids @ [id_col message], posts @ [id_col message]))"

text \<open>Where the database fails during a cycle, if it does.\<close>

datatype db_fault = NoFault | SelectFails | UpdateFails | CommitFails

datatype error = StorageUnavailable

text \<open>
  The surroundings of one cycle: the outcome of the request for each message, the value of
  \<^verbatim>\<open>datetime.utcnow()\<close> at the update, and the fault of the database.
\<close>

record env =
  net :: "TempOutbox \<Rightarrow> attempt"
  now :: timestamp
  fault :: db_fault

text \<open>
  A session (\<^verbatim>\<open>SessionLocal()\<close>, \<^verbatim>\<open>autocommit=False\<close>): the committed table and the
  rows as changed by the open transaction, if it has changed any.
\<close>

record session =
  committed :: table
  uncommitted :: "table option"

definition view :: "session \<Rightarrow> table" where
  "view s = (case uncommitted s of None \<Rightarrow> committed s | Some rows \<Rightarrow> rows)"

definition commit :: "session \<Rightarrow> session" where
  "commit s = \<lparr>committed = view s, uncommitted = None\<rparr>"

text \<open>\<^verbatim>\<open>db.close()\<close> of \<^verbatim>\<open>get_db\<close>: the open transaction is rolled back.\<close>

definition close :: "session \<Rightarrow> session" where
  "close s = s\<lparr>uncommitted := None\<rparr>"

record drain_result =
  processed :: nat
  delivered :: nat
  failed :: nat

text \<open>
  \<^verbatim>\<open>DrainService.drain_batch\<close>. The result is the returned dictionary or the exception
  of the database, the session as the call leaves it, and the delivery calls made.
\<close>

definition drain_batch ::
  "env \<Rightarrow> nat \<Rightarrow> session \<Rightarrow> (error + drain_result) \<times> session \<times> int list" where
  "drain_batch e batch_size s =
     (if fault e = SelectFails then (Inl StorageUnavailable, s, [])
      else
        let pending_messages = select_pending batch_size (view s) in
        if pending_messages = []
        then (Inr \<lparr>processed = 0, delivered = 0, failed = 0\<rparr>, s, [])
        else
          let (delivered_ids, failed_ids, posts) = deliver_loop (net e) pending_messages ([], [], []);
              result = \<lparr>processed = length pending_messages,
                        delivered = length delivered_ids,
                        failed = length failed_ids\<rparr>
          in if delivered_ids \<noteq> []
             then (if fault e = UpdateFails then (Inl StorageUnavailable, s, posts)
                   else
                     let s' = s\<lparr>uncommitted := Some (mark_delivered delivered_ids (now e) (view s))\<rparr>
                     in if fault e = CommitFails then (Inl StorageUnavailable, s', posts)
                        else (Inr result, commit s', posts))
             else (Inr result, s, posts))"

text \<open>The response of the route \<^verbatim>\<open>POST /drain/run\<close>.\<close>

datatype response = Success drain_result | HTTPException nat error

text \<open>
  \<^verbatim>\<open>drain_messages\<close> with its dependency \<^verbatim>\<open>get_db\<close>: a fresh session on the table, one
  \<^verbatim>\<open>drain_batch\<close> with the configured batch size, any exception turned into status 500,
  and the session closed. It returns the response, the table afterwards and the delivery
  calls made.
\<close>

definition drain_messages :: "env \<Rightarrow> nat \<Rightarrow> table \<Rightarrow> response \<times> table \<times> int list" where
  "drain_messages e batch_size rows =
     (case drain_batch e batch_size \<lparr>committed = rows, uncommitted = None\<rparr> of
        (Inl err, s, posts) \<Rightarrow> (HTTPException 500 err, committed (close s), posts)
      | (Inr result, s, posts) \<Rightarrow> (Success result, committed (close s), posts))"

text \<open>
  \<^verbatim>\<open>drain_status\<close> reads the table and leaves it as it is (also when the read fails):
  the pending count and the table.
\<close>

definition drain_status :: "table \<Rightarrow> nat \<times> table" where
  "drain_status rows = (pending_count rows, rows)"

text \<open>The operations of the drain routes, and a sequence of them run one after the other.\<close>

datatype operation = Run env nat | Status

fun step :: "operation \<Rightarrow> table \<Rightarrow> table" where
  "step (Run e batch_size) rows = fst (snd (drain_messages e batch_size rows))"
| "step Status rows = snd (drain_status rows)"

fun run_all :: "operation list \<Rightarrow> table \<Rightarrow> table" where
  "run_all [] rows = rows"
| "run_all (operation # rest) rows = run_all rest (step operation rows)"


subsection \<open>The selection in the words of the specification\<close>

text \<open>
  \<open>selectPending(limit)\<close> as the specification words it: up to \<open>limit\<close> pending records
  ordered by \<open>(queued_at ascending, id ascending)\<close>. It is compared with \<open>select_pending\<close>,
  which is the query of the source.
\<close>

definition selectPending_spec :: "nat \<Rightarrow> table \<Rightarrow> TempOutbox list" where
  "selectPending_spec limit rows =
     take limit (sort_key (\<lambda>m. (queued_at m, id_col m)) (filter is_pending rows))"

subsection \<open>Concrete rows and surroundings\<close>

text \<open>A row as a producer inserts it: pending, with the given id and queueing time.\<close>

definition queued_message :: "int \<Rightarrow> timestamp \<Rightarrow> TempOutbox" where
  "queued_message i t =
     \<lparr>id_col = i, room_id = ''lobby'', sender_handle = ''alice'', cipher_blob = ''blob'',
      filter_version = 1, queued_at = t, delivered_at = None, deleted_at = None\<rparr>"

text \<open>A table of \<open>n\<close> pending rows with ids and queueing times \<open>0, ..., n - 1\<close>.\<close>

definition backlog :: "nat \<Rightarrow> table" where
  "backlog n = map (\<lambda>i. queued_message (int i) i) [0..<n]"

text \<open>A cycle in which the primary server answers 200 to every request and the database works.\<close>

definition primary_up :: "timestamp \<Rightarrow> env" where
  "primary_up t = \<lparr>net = (\<lambda>m. Response 200), now = t, fault = NoFault\<rparr>"

text \<open>
  A cycle in which the primary server answers 200 to the requests for the messages with the
  given ids and 503 to every other request, and the database works.
\<close>

definition primary_up_for :: "int list \<Rightarrow> timestamp \<Rightarrow> env" where
  "primary_up_for ids t =
     \<lparr>net = (\<lambda>m. if id_col m \<in> set ids then Response 200 else Response 503), now = t,
      fault = NoFault\<rparr>"

section \<open>Properties\<close>

subsection \<open>What one cycle computes\<close>

lemma deliver_loop_eq:
  "deliver_loop nt ms (d, f, p) =
     (d @ map id_col (filter (\<lambda>m. deliver_to_primary (nt m)) ms),
      f @ map id_col (filter (\<lambda>m. \<not> deliver_to_primary (nt m)) ms),
      p @ map id_col ms)"
  by (induction ms arbitrary: d f p) simp_all

lemma mark_delivered_Nil [simp]: "mark_delivered [] t rows = rows"
  by (simp add: mark_delivered_def)

lemma length_mark_delivered [simp]: "length (mark_delivered ids t rows) = length rows"
  by (simp add: mark_delivered_def)

lemma drain_messages_table:
  "fst (snd (drain_messages e bs rows)) =
     (if fault e = NoFault
      then mark_delivered
             (map id_col (filter (\<lambda>m. deliver_to_primary (net e m)) (select_pending bs rows)))
             (now e) rows
      else rows)"
  by (cases "fault e")
     (simp_all add: drain_messages_def drain_batch_def Let_def deliver_loop_eq view_def
        commit_def close_def)

lemma drain_messages_posts:
  "snd (snd (drain_messages e bs rows)) =
     (if fault e = SelectFails then [] else map id_col (select_pending bs rows))"
  by (cases "fault e")
     (simp_all add: drain_messages_def drain_batch_def Let_def deliver_loop_eq view_def
        commit_def close_def)

lemma drain_messages_response:
  "fst (drain_messages e bs rows) =
     (if fault e = SelectFails \<or>
         (fault e \<noteq> NoFault \<and> filter (\<lambda>m. deliver_to_primary (net e m)) (select_pending bs rows) \<noteq> [])
      then HTTPException 500 StorageUnavailable
      else Success \<lparr>processed = length (select_pending bs rows),
             delivered = length (filter (\<lambda>m. deliver_to_primary (net e m)) (select_pending bs rows)),
             failed = length (filter (\<lambda>m. \<not> deliver_to_primary (net e m)) (select_pending bs rows))\<rparr>)"
  by (cases "fault e")
     (simp_all add: drain_messages_def drain_batch_def Let_def deliver_loop_eq view_def
        commit_def close_def)

subsection \<open>The delivery attempt\<close>

text \<open>
  C4 (as the code has it). A single delivery attempt yields delivered if and only if the
  primary service answers with status 200 exactly; every other status (201, 204 and the
  other 2xx codes, 3xx, 4xx with the credential rejections 401 and 403, 5xx), a timeout, a
  connection error and any other exception yield failed.
\<close>

theorem deliver_to_primary_iff_200:
  "deliver_to_primary a = (a = Response 200)"
  by (cases a) simp_all

text \<open>
  The claim with success read as any 2xx status fails: status 201 is a 2xx status and the
  attempt is counted as failed.
\<close>

theorem deliver_to_primary_201_counterexample:
  "is_2xx 201 \<and> \<not> deliver_to_primary (Response 201)"
  by (simp add: is_2xx_def)

subsection \<open>The selection\<close>

lemma map_id_col_mark_delivered [simp]:
  "map id_col (mark_delivered ids t rows) = map id_col rows"
  by (simp add: mark_delivered_def)

lemma insort_key_same_order:
  "\<forall>y\<in>set ys. (f x \<le> f y) = (g x \<le> g y) \<Longrightarrow> insort_key f x ys = insort_key g x ys"
  by (induction ys) simp_all

lemma sort_key_queued_at_id:
  "distinct (map queued_at ms) \<Longrightarrow>
   sort_key queued_at ms = sort_key (\<lambda>m. (queued_at m, id_col m)) ms"
proof (induction ms)
  case Nil
  show ?case by simp
next
  case (Cons m ms)
  have eq: "sort_key queued_at ms = sort_key (\<lambda>m. (queued_at m, id_col m)) ms"
    using Cons by simp
  have "\<forall>y\<in>set ms. queued_at m \<noteq> queued_at y"
    using Cons.prems by auto
  then have "\<forall>y\<in>set (sort_key queued_at ms).
      (queued_at m \<le> queued_at y) = ((queued_at m, id_col m) \<le> (queued_at y, id_col y))"
    by auto
  then have "insort_key queued_at m (sort_key queued_at ms) =
      insort_key (\<lambda>m. (queued_at m, id_col m)) m (sort_key queued_at ms)"
    by (rule insort_key_same_order)
  with eq show ?case by simp
qed

lemma select_pending_above:
  assumes "m \<in> set (filter is_pending rows)" "m \<notin> set (select_pending k rows)"
    "m' \<in> set (select_pending k rows)"
  shows "queued_at m' \<le> queued_at m"
proof -
  let ?s = "sort_key queued_at (filter is_pending rows)"
  have "sorted (map queued_at (take k ?s @ drop k ?s))" by simp
  then have "sorted (map queued_at (take k ?s) @ map queued_at (drop k ?s))"
    by (simp only: map_append)
  then have le: "\<forall>x\<in>set (map queued_at (take k ?s)). \<forall>y\<in>set (map queued_at (drop k ?s)). x \<le> y"
    by (simp only: sorted_append) blast
  have "set ?s = set (take k ?s) \<union> set (drop k ?s)"
    by (metis append_take_drop_id set_append)
  then have "m \<in> set (drop k ?s)" using assms(1,2) by (auto simp: select_pending_def)
  with le assms(3) show ?thesis by (auto simp: select_pending_def)
qed

text \<open>
  C3 (as the code has it). For every table and every limit the selection returns
  \<open>min limit pending_count\<close> records, so at most \<open>limit\<close>; all of them are pending rows of
  the table; they are ordered by \<open>queued_at\<close> ascending; no pending row that is left out was
  queued earlier than a returned one; and when the pending rows were queued at pairwise
  distinct times, the returned sequence is exactly the records with the smallest
  \<open>(queued_at, id)\<close> pairs, in that order. The query has no second sort key, so among rows
  queued at equal times the order is the engine's and not the order of the ids.
\<close>

theorem select_pending_sorted_prefix:
  "length (select_pending k rows) = min k (pending_count rows)
   \<and> set (select_pending k rows) \<subseteq> {m \<in> set rows. is_pending m}
   \<and> sorted (map queued_at (select_pending k rows))
   \<and> (\<forall>m\<in>set rows. is_pending m \<and> m \<notin> set (select_pending k rows) \<longrightarrow>
        (\<forall>m'\<in>set (select_pending k rows). queued_at m' \<le> queued_at m))
   \<and> (distinct (map queued_at (filter is_pending rows)) \<longrightarrow>
        select_pending k rows = selectPending_spec k rows)"
proof -
  have 1: "length (select_pending k rows) = min k (pending_count rows)"
    by (simp add: select_pending_def pending_count_def min.commute)
  have 2: "set (select_pending k rows) \<subseteq> {m \<in> set rows. is_pending m}"
    using set_take_subset [of k "sort_key queued_at (filter is_pending rows)"]
    by (auto simp: select_pending_def)
  have 3: "sorted (map queued_at (select_pending k rows))"
    by (simp add: select_pending_def take_map [symmetric])
  have 4: "\<forall>m\<in>set rows. is_pending m \<and> m \<notin> set (select_pending k rows) \<longrightarrow>
        (\<forall>m'\<in>set (select_pending k rows). queued_at m' \<le> queued_at m)"
    using select_pending_above [of _ rows k] by auto
  have 5: "distinct (map queued_at (filter is_pending rows)) \<longrightarrow>
        select_pending k rows = selectPending_spec k rows"
    by (simp add: select_pending_def selectPending_spec_def sort_key_queued_at_id)
  from 1 2 3 4 5 show ?thesis by blast
qed

text \<open>
  Two pending rows queued at the same time 5, the row with id 2 before the row with id 1 in
  the table: with limit 1 the query returns the row with id 2, while the smallest
  \<open>(queued_at, id)\<close> pair belongs to the row with id 1.
\<close>

theorem select_pending_tie_counterexample:
  "map id_col (select_pending 1 [queued_message 2 5, queued_message 1 5]) = [2]
   \<and> map id_col (selectPending_spec 1 [queued_message 2 5, queued_message 1 5]) = [1]"
  by (simp add: select_pending_def selectPending_spec_def queued_message_def is_pending_def)

text \<open>Three rows queued at the distinct times 7, 5 and 9, limit 2.\<close>

theorem select_pending_sorted_prefix_witness:
  "distinct (map queued_at (filter is_pending [queued_message 2 7, queued_message 1 5, queued_message 3 9]))
   \<and> map id_col (select_pending 2 [queued_message 2 7, queued_message 1 5, queued_message 3 9]) = [1, 2]
   \<and> select_pending 2 [queued_message 2 7, queued_message 1 5, queued_message 3 9]
      = selectPending_spec 2 [queued_message 2 7, queued_message 1 5, queued_message 3 9]"
  using select_pending_sorted_prefix [of 2 "[queued_message 2 7, queued_message 1 5, queued_message 3 9]"]
  by (simp add: select_pending_def selectPending_spec_def queued_message_def is_pending_def)

subsection \<open>The update, the frame and write-once\<close>

lemma is_pending_mark_delivered:
  "filter is_pending (mark_delivered ids t rows) =
     filter (\<lambda>m. is_pending m \<and> id_col m \<notin> set ids) rows"
  by (induction rows) (simp_all add: mark_delivered_def is_pending_def)


lemma mark_delivered_twice_same:
  "mark_delivered ids t2 (mark_delivered ids t1 rows) = mark_delivered ids t2 rows"
  by (simp add: mark_delivered_def)

text \<open>
  C1 (as the code has it). For every id list, timestamp and table the bulk update sets
  \<open>delivered_at\<close> on every row whose id is among the given ids, pending or already
  delivered, and on no other row. Invoking it a second time with the same ids gives the
  table that the second timestamp alone would give; with the same timestamp it changes
  nothing; and with any timestamp it changes neither the pending count nor the pending rows.
\<close>

theorem mark_delivered_overwrites:
  "map delivered_at (mark_delivered ids t rows) =
     map (\<lambda>m. if id_col m \<in> set ids then Some t else delivered_at m) rows
   \<and> mark_delivered ids t2 (mark_delivered ids t1 rows) = mark_delivered ids t2 rows
   \<and> mark_delivered ids t1 (mark_delivered ids t1 rows) = mark_delivered ids t1 rows
   \<and> pending_count (mark_delivered ids t2 (mark_delivered ids t1 rows)) =
       pending_count (mark_delivered ids t1 rows)
   \<and> filter is_pending (mark_delivered ids t2 (mark_delivered ids t1 rows)) =
       filter is_pending (mark_delivered ids t1 rows)"
  by (simp add: mark_delivered_twice_same pending_count_def is_pending_mark_delivered)
     (simp add: mark_delivered_def)

text \<open>
  The row with id 1 is marked at time 5 and the same id list is marked again at time 9: the
  second update changes \<open>delivered_at\<close> of the already delivered row from 5 to 9.
\<close>

theorem mark_delivered_twice_counterexample:
  "map delivered_at (mark_delivered [1] 5 [queued_message 1 0]) = [Some 5]
   \<and> map delivered_at (mark_delivered [1] 9 (mark_delivered [1] 5 [queued_message 1 0])) = [Some 9]"
  by (simp add: mark_delivered_def queued_message_def)

lemma select_pending_subset:
  "set (select_pending bs rows) \<subseteq> {m \<in> set rows. is_pending m}"
  using set_take_subset [of bs "sort_key queued_at (filter is_pending rows)"]
  by (auto simp: select_pending_def)


lemma step_length [simp]: "length (step operation rows) = length rows"
  by (cases operation) (simp_all add: drain_messages_table drain_status_def)

lemma step_ids [simp]: "map id_col (step operation rows) = map id_col rows"
  by (cases operation) (simp_all add: drain_messages_table drain_status_def)




text \<open>
  C10. A cycle leaves the number of rows and, row by row, the columns \<open>id\<close>, \<open>room_id\<close>,
  \<open>sender_handle\<close>, \<open>cipher_blob\<close>, \<open>filter_version\<close>, \<open>queued_at\<close> and \<open>deleted_at\<close> as
  they were: it writes \<open>delivered_at\<close> only, and inserts and removes nothing.
\<close>

theorem drain_messages_frame:
  "length (fst (snd (drain_messages e bs rows))) = length rows
   \<and> map (\<lambda>m. (id_col m, room_id m, sender_handle m, cipher_blob m, filter_version m,
                queued_at m, deleted_at m)) (fst (snd (drain_messages e bs rows)))
     = map (\<lambda>m. (id_col m, room_id m, sender_handle m, cipher_blob m, filter_version m,
                queued_at m, deleted_at m)) rows"
  by (simp add: drain_messages_table mark_delivered_def)

text \<open>
  C7. With no pending row in the table and a database that answers the selecting query, one
  cycle returns \<open>{processed: 0, delivered: 0, failed: 0}\<close>, makes no delivery call and leaves
  the table as it is.
\<close>

theorem drain_messages_nothing_pending:
  "pending_count rows = 0 \<Longrightarrow> fault e \<noteq> SelectFails \<Longrightarrow>
   drain_messages e bs rows = (Success \<lparr>processed = 0, delivered = 0, failed = 0\<rparr>, rows, [])"
  by (simp add: drain_messages_def drain_batch_def select_pending_def pending_count_def
      view_def close_def)

text \<open>A table whose only row was delivered at time 3, and a cycle whose commit would fail.\<close>

theorem drain_messages_nothing_pending_witness:
  "pending_count [(queued_message 1 5)\<lparr>delivered_at := Some 3\<rparr>] = 0
   \<and> fault ((primary_up 9)\<lparr>fault := CommitFails\<rparr>) \<noteq> SelectFails
   \<and> drain_messages ((primary_up 9)\<lparr>fault := CommitFails\<rparr>) 100
        [(queued_message 1 5)\<lparr>delivered_at := Some 3\<rparr>]
      = (Success \<lparr>processed = 0, delivered = 0, failed = 0\<rparr>,
         [(queued_message 1 5)\<lparr>delivered_at := Some 3\<rparr>], [])"
proof -
  have h1: "pending_count [(queued_message 1 5)\<lparr>delivered_at := Some 3\<rparr>] = 0"
    by (simp add: pending_count_def is_pending_def)
  have h2: "fault ((primary_up 9)\<lparr>fault := CommitFails\<rparr>) \<noteq> SelectFails" by simp
  from drain_messages_nothing_pending [OF h1 h2, of 100] h1 h2 show ?thesis by blast
qed

subsection \<open>The counts of a cycle\<close>

lemma select_pending_all:
  "pending_count rows \<le> k \<Longrightarrow> set (select_pending k rows) = {m \<in> set rows. is_pending m}"
  by (auto simp: select_pending_def pending_count_def)

lemma length_filter_two:
  "length (filter P xs) + length (filter (\<lambda>x. \<not> P x) xs) = length xs"
  by (induction xs) simp_all

lemma counts_of_success:
  assumes "fst (drain_messages e bs rows) = Success res"
  shows "processed res = length (select_pending bs rows)"
    and "delivered res = length (filter (\<lambda>m. deliver_to_primary (net e m)) (select_pending bs rows))"
    and "failed res = length (filter (\<lambda>m. \<not> deliver_to_primary (net e m)) (select_pending bs rows))"
proof -
  have "res = \<lparr>processed = length (select_pending bs rows),
             delivered = length (filter (\<lambda>m. deliver_to_primary (net e m)) (select_pending bs rows)),
             failed = length (filter (\<lambda>m. \<not> deliver_to_primary (net e m)) (select_pending bs rows))\<rparr>"
    using assms unfolding drain_messages_response by (simp split: if_splits)
  then show "processed res = length (select_pending bs rows)"
    and "delivered res = length (filter (\<lambda>m. deliver_to_primary (net e m)) (select_pending bs rows))"
    and "failed res = length (filter (\<lambda>m. \<not> deliver_to_primary (net e m)) (select_pending bs rows))"
    by simp_all
qed

lemma mark_delivered_other:
  "m \<in> set rows \<Longrightarrow> id_col m \<notin> set ids \<Longrightarrow> m \<in> set (mark_delivered ids t rows)"
  unfolding mark_delivered_def set_map by (rule image_eqI [where x = m]) simp_all

lemma select_pending_after_mark:
  assumes "m \<in> set (select_pending k (mark_delivered ids t rows))"
  shows "id_col m \<notin> set ids"
proof -
  have "m \<in> set (sort_key queued_at (filter is_pending (mark_delivered ids t rows)))"
    using assms unfolding select_pending_def by (rule in_set_takeD)
  then show ?thesis by (simp add: is_pending_mark_delivered)
qed

lemma one_of_two:
  assumes h: "fault e = NoFault" "distinct (map id_col rows)"
      "select_pending bs rows = [a, b] \<or> select_pending bs rows = [b, a]"
      "deliver_to_primary (net e a)" "\<not> deliver_to_primary (net e b)"
  shows "fst (drain_messages e bs rows) = Success \<lparr>processed = 2, delivered = 1, failed = 1\<rparr>"
    and "step (Run e bs) rows = mark_delivered [id_col a] (now e) rows"
    and "b \<in> set (step (Run e bs) rows)" and "is_pending b"
proof -
  let ?sel = "select_pending bs rows"
  let ?ok = "\<lambda>m. deliver_to_primary (net e m)"
  have ok_sel: "filter ?ok ?sel = [a]"
    using h(3,4,5) by (elim disjE) simp_all
  have bad_sel: "filter (\<lambda>m. \<not> ?ok m) ?sel = [b]"
    using h(3,4,5) by (elim disjE) simp_all
  have len: "length ?sel = 2" using h(3) by (elim disjE) simp_all
  show tab: "step (Run e bs) rows = mark_delivered [id_col a] (now e) rows"
    using h(1) by (simp add: drain_messages_table ok_sel)
  have "a \<in> set ?sel" "b \<in> set ?sel" using h(3) by (elim disjE; simp)+
  then have ab: "a \<in> set rows" "b \<in> set rows" "is_pending b"
    using select_pending_subset [of bs rows] by blast+
  show "is_pending b" by (rule ab(3))
  have "a \<noteq> b" using h(4,5) by blast
  moreover have "inj_on id_col (set rows)" using h(2) by (simp add: distinct_map)
  ultimately have ne: "id_col b \<noteq> id_col a" using ab(1,2) by (blast dest: inj_onD)
  show "fst (drain_messages e bs rows) = Success \<lparr>processed = 2, delivered = 1, failed = 1\<rparr>"
    unfolding drain_messages_response ok_sel bad_sel len using h(1) by simp
  show "b \<in> set (step (Run e bs) rows)"
    unfolding tab using ab(2) ne by (intro mark_delivered_other) simp_all
qed

text \<open>
  C5. The loop puts the id of every selected record in exactly one of \<open>delivered_ids\<close> and
  \<open>failed_ids\<close>, and attempts every selected record. Whenever a cycle returns counts,
  \<open>processed\<close> is the number selected, \<open>delivered\<close> and \<open>failed\<close> count the records whose
  attempt succeeded and failed, and \<open>failed = processed - delivered\<close>. In particular, on a
  table with distinct ids and a working database, when the batch is the two records \<open>a\<close> and
  \<open>b\<close> (in either order), the delivery of \<open>a\<close> succeeds and that of \<open>b\<close> fails, the result is
  \<open>{processed: 2, delivered: 1, failed: 1}\<close>; \<open>b\<close> is still in the table and pending, it is
  selected by the next cycle whenever the limit covers the pending rows, and no selection
  of a later cycle contains the id of \<open>a\<close>.
\<close>

theorem drain_counts_partial_failure:
  "deliver_loop (net e) (select_pending bs rows) ([], [], []) =
      (map id_col (filter (\<lambda>m. deliver_to_primary (net e m)) (select_pending bs rows)),
       map id_col (filter (\<lambda>m. \<not> deliver_to_primary (net e m)) (select_pending bs rows)),
       map id_col (select_pending bs rows))
   \<and> (fst (drain_messages e bs rows) = Success res \<longrightarrow>
        processed res = length (select_pending bs rows)
        \<and> delivered res = length (filter (\<lambda>m. deliver_to_primary (net e m)) (select_pending bs rows))
        \<and> failed res = length (filter (\<lambda>m. \<not> deliver_to_primary (net e m)) (select_pending bs rows))
        \<and> delivered res + failed res = processed res
        \<and> failed res = processed res - delivered res)
   \<and> (fault e = NoFault \<and> distinct (map id_col rows)
        \<and> (select_pending bs rows = [a, b] \<or> select_pending bs rows = [b, a])
        \<and> deliver_to_primary (net e a) \<and> \<not> deliver_to_primary (net e b) \<longrightarrow>
        fst (drain_messages e bs rows) = Success \<lparr>processed = 2, delivered = 1, failed = 1\<rparr>
        \<and> b \<in> set (step (Run e bs) rows) \<and> is_pending b
        \<and> (\<forall>k. pending_count (step (Run e bs) rows) \<le> k \<longrightarrow>
               b \<in> set (select_pending k (step (Run e bs) rows)))
        \<and> (\<forall>k. \<forall>m\<in>set (select_pending k (step (Run e bs) rows)). id_col m \<noteq> id_col a))"
  (is "?A \<and> (?B1 \<longrightarrow> ?B2) \<and> (?C1 \<longrightarrow> ?C2)")
proof -
  have A: ?A by (simp add: deliver_loop_eq)
  have B: "?B1 \<longrightarrow> ?B2"
  proof (rule impI)
  assume s: ?B1
  note c = counts_of_success [OF s]
  have sum: "length (filter (\<lambda>m. deliver_to_primary (net e m)) (select_pending bs rows))
      + length (filter (\<lambda>m. \<not> deliver_to_primary (net e m)) (select_pending bs rows))
      = length (select_pending bs rows)"
    by (rule length_filter_two)
  show ?B2 using c sum by simp
  qed
  have C: "?C1 \<longrightarrow> ?C2"
  proof (rule impI)
  assume ?C1
  then have h: "fault e = NoFault" "distinct (map id_col rows)"
      "select_pending bs rows = [a, b] \<or> select_pending bs rows = [b, a]"
      "deliver_to_primary (net e a)" "\<not> deliver_to_primary (net e b)"
    by simp_all
  note r = one_of_two [OF h]
  have 3: "\<forall>k. pending_count (step (Run e bs) rows) \<le> k \<longrightarrow>
               b \<in> set (select_pending k (step (Run e bs) rows))"
    using r(3,4) by (simp add: select_pending_all)
  have 4: "\<forall>k. \<forall>m\<in>set (select_pending k (step (Run e bs) rows)). id_col m \<noteq> id_col a"
    unfolding r(2) using select_pending_after_mark [of _ _ "[id_col a]" "now e" rows] by auto
  show ?C2 using r(1,3,4) 3 4 by (intro conjI)
  qed
  show ?thesis by (rule conjI [OF A conjI [OF B C]])
qed

text \<open>Two pending rows; the primary server accepts the message with id 1 and answers 503 to id 2.\<close>

theorem drain_counts_partial_failure_witness:
  "(fault (primary_up_for [1] 9) = NoFault
    \<and> distinct (map id_col [queued_message 1 5, queued_message 2 6])
    \<and> (select_pending 100 [queued_message 1 5, queued_message 2 6]
          = [queued_message 1 5, queued_message 2 6]
        \<or> select_pending 100 [queued_message 1 5, queued_message 2 6]
          = [queued_message 2 6, queued_message 1 5])
    \<and> deliver_to_primary (net (primary_up_for [1] 9) (queued_message 1 5))
    \<and> \<not> deliver_to_primary (net (primary_up_for [1] 9) (queued_message 2 6)))
   \<and> fst (drain_messages (primary_up_for [1] 9) 100 [queued_message 1 5, queued_message 2 6])
       = Success \<lparr>processed = 2, delivered = 1, failed = 1\<rparr>
   \<and> queued_message 2 6
       \<in> set (step (Run (primary_up_for [1] 9) 100) [queued_message 1 5, queued_message 2 6])"
proof -
  let ?e = "primary_up_for [1] 9"
  let ?rows = "[queued_message 1 5, queued_message 2 6]"
  have sel: "select_pending 100 ?rows = ?rows"
    by (simp add: select_pending_def queued_message_def is_pending_def)
  have h: "fault ?e = NoFault \<and> distinct (map id_col ?rows)
    \<and> (select_pending 100 ?rows = [queued_message 1 5, queued_message 2 6]
        \<or> select_pending 100 ?rows = [queued_message 2 6, queued_message 1 5])
    \<and> deliver_to_primary (net ?e (queued_message 1 5))
    \<and> \<not> deliver_to_primary (net ?e (queued_message 2 6))"
    unfolding sel by (simp add: primary_up_for_def queued_message_def)
  note t = drain_counts_partial_failure
    [of ?e 100 ?rows "\<lparr>processed = 2, delivered = 1, failed = 1\<rparr>"
        "queued_message 1 5" "queued_message 2 6"]
  note c = t [THEN conjunct2, THEN conjunct2, THEN mp, OF h]
  show ?thesis using h c by (intro conjI) (elim conjE, assumption)+
qed

subsection \<open>Storage failures and delivery failures\<close>

lemma drain_batch_committed:
  "fst (drain_batch e bs s) = Inl err \<Longrightarrow> committed (fst (snd (drain_batch e bs s))) = committed s"
  by (cases "fault e")
     (simp_all add: drain_batch_def Let_def deliver_loop_eq commit_def split: if_splits)

text \<open>
  C6. A failure of the selecting query gives the response 500, no delivery call and the
  table as it was. A failure of the update or of the commit, which are reached when at
  least one delivery succeeded, gives the response 500 and the table as it was, after every
  selected record has been attempted. Whenever the response is an error, the database had a
  fault and the table is as it was. With a working database the response is a success
  payload with the counts whatever the delivery outcomes (timeouts, exceptions, statuses),
  and every selected record has been attempted: a delivery failure is visible in
  \<open>failed\<close> only. Within \<^verbatim>\<open>drain_batch\<close> itself, on any session, an exception leaves the
  committed table as it was.
\<close>

theorem storage_failure_aborts:
  "(fault e = SelectFails \<longrightarrow>
      drain_messages e bs rows = (HTTPException 500 StorageUnavailable, rows, []))
   \<and> ((fault e = UpdateFails \<or> fault e = CommitFails)
        \<and> filter (\<lambda>m. deliver_to_primary (net e m)) (select_pending bs rows) \<noteq> [] \<longrightarrow>
      drain_messages e bs rows
        = (HTTPException 500 StorageUnavailable, rows, map id_col (select_pending bs rows)))
   \<and> (fst (drain_messages e bs rows) = HTTPException status err \<longrightarrow>
      fault e \<noteq> NoFault \<and> fst (snd (drain_messages e bs rows)) = rows)
   \<and> (fault e = NoFault \<longrightarrow>
      fst (drain_messages e bs rows)
        = Success \<lparr>processed = length (select_pending bs rows),
             delivered = length (filter (\<lambda>m. deliver_to_primary (net e m)) (select_pending bs rows)),
             failed = length (filter (\<lambda>m. \<not> deliver_to_primary (net e m)) (select_pending bs rows))\<rparr>
      \<and> snd (snd (drain_messages e bs rows)) = map id_col (select_pending bs rows))
   \<and> (fst (drain_batch e bs s) = Inl err \<longrightarrow>
      committed (fst (snd (drain_batch e bs s))) = committed s)"
  (is "?A \<and> ?B \<and> ?C \<and> ?D \<and> ?E")
proof -
  have A: ?A
    by (simp add: prod_eq_iff drain_messages_response drain_messages_table drain_messages_posts)
  have B: ?B
    by (auto simp add: prod_eq_iff drain_messages_response drain_messages_table drain_messages_posts)
  have C: ?C
    by (simp add: drain_messages_response drain_messages_table split: if_splits)
  have D: ?D
    by (simp add: drain_messages_response drain_messages_posts)
  have E: ?E
    by (rule impI) (rule drain_batch_committed)
  show ?thesis by (rule conjI [OF A conjI [OF B conjI [OF C conjI [OF D E]]]])
qed

text \<open>
  Two pending rows: a cycle whose selecting query fails; a cycle that delivers the message
  with id 1 and whose commit fails; and a cycle with a working database in which the
  delivery of the message with id 0 fails.
\<close>

theorem storage_failure_aborts_witness:
  "(fault ((primary_up 9)\<lparr>fault := SelectFails\<rparr>) = SelectFails
    \<and> drain_messages ((primary_up 9)\<lparr>fault := SelectFails\<rparr>) 100 (backlog 2)
        = (HTTPException 500 StorageUnavailable, backlog 2, []))
   \<and> ((fault ((primary_up_for [1] 9)\<lparr>fault := CommitFails\<rparr>) = UpdateFails
        \<or> fault ((primary_up_for [1] 9)\<lparr>fault := CommitFails\<rparr>) = CommitFails)
       \<and> filter (\<lambda>m. deliver_to_primary (net ((primary_up_for [1] 9)\<lparr>fault := CommitFails\<rparr>) m))
            (select_pending 100 (backlog 2)) \<noteq> []
       \<and> fst (snd (drain_messages ((primary_up_for [1] 9)\<lparr>fault := CommitFails\<rparr>) 100 (backlog 2)))
           = backlog 2)
   \<and> (fault (primary_up_for [1] 9) = NoFault
       \<and> fst (drain_messages (primary_up_for [1] 9) 100 (backlog 2))
           = Success \<lparr>processed = 2, delivered = 1, failed = 1\<rparr>
       \<and> snd (snd (drain_messages (primary_up_for [1] 9) 100 (backlog 2))) = [0, 1])"
proof -
  have b2: "backlog 2 = [queued_message 0 0, queued_message 1 1]"
    by (simp add: backlog_def upt_conv_Cons)
  have sel: "select_pending 100 (backlog 2) = [queued_message 0 0, queued_message 1 1]"
    by (simp add: b2 select_pending_def queued_message_def is_pending_def)
  let ?e1 = "(primary_up 9)\<lparr>fault := SelectFails\<rparr>"
  let ?e2 = "(primary_up_for [1] 9)\<lparr>fault := CommitFails\<rparr>"
  let ?e3 = "primary_up_for [1] 9"
  have h1: "fault ?e1 = SelectFails" by simp
  have h2: "(fault ?e2 = UpdateFails \<or> fault ?e2 = CommitFails)
       \<and> filter (\<lambda>m. deliver_to_primary (net ?e2 m)) (select_pending 100 (backlog 2)) \<noteq> []"
    by (simp add: sel primary_up_for_def queued_message_def)
  have h3: "fault ?e3 = NoFault" by (simp add: primary_up_for_def)
  note t1 = storage_failure_aborts [of ?e1 100 "backlog 2" 500 StorageUnavailable,
      THEN conjunct1, THEN mp, OF h1]
  note t2 = storage_failure_aborts [of ?e2 100 "backlog 2" 500 StorageUnavailable,
      THEN conjunct2, THEN conjunct1, THEN mp, OF h2]
  note t3 = storage_failure_aborts [of ?e3 100 "backlog 2" 500 StorageUnavailable,
      THEN conjunct2, THEN conjunct2, THEN conjunct2, THEN conjunct1, THEN mp, OF h3]
  have c2: "fst (snd (drain_messages ?e2 100 (backlog 2))) = backlog 2"
    by (simp add: t2)
  have c3: "fst (drain_messages ?e3 100 (backlog 2)) = Success \<lparr>processed = 2, delivered = 1, failed = 1\<rparr>"
    using t3 by (simp add: sel primary_up_for_def queued_message_def)
  have c4: "snd (snd (drain_messages ?e3 100 (backlog 2))) = [0, 1]"
    using t3 by (simp add: sel queued_message_def)
  show ?thesis using h1 t1 h2 c2 h3 c3 c4 by (intro conjI) (elim conjE, assumption)+
qed

subsection \<open>Draining a backlog\<close>

lemma length_filter_not_in:
  assumes "distinct ps" "distinct sel" "set sel \<subseteq> set ps"
  shows "length (filter (\<lambda>m. m \<notin> set sel) ps) = length ps - length sel"
proof -
  have "distinct (filter (\<lambda>m. m \<notin> set sel) ps)" using assms(1) by simp
  then have "length (filter (\<lambda>m. m \<notin> set sel) ps) = card (set (filter (\<lambda>m. m \<notin> set sel) ps))"
    by (rule distinct_card [symmetric])
  also have "set (filter (\<lambda>m. m \<notin> set sel) ps) = set ps - set sel" by auto
  also have "card (set ps - set sel) = card (set ps) - card (set sel)"
    using assms(3) by (simp add: card_Diff_subset)
  also have "\<dots> = length ps - length sel"
    using assms(1,2) by (simp add: distinct_card)
  finally show ?thesis .
qed

lemma pending_after_mark_selected:
  assumes "distinct (map id_col rows)"
  shows "pending_count (mark_delivered (map id_col (select_pending bs rows)) t rows)
           = pending_count rows - min bs (pending_count rows)"
proof -
  let ?sel = "select_pending bs rows"
  have inj: "inj_on id_col (set rows)" and drows: "distinct rows"
    using assms by (simp_all add: distinct_map)
  have sub: "set ?sel \<subseteq> set (filter is_pending rows)"
    using select_pending_subset [of bs rows] by auto
  have "\<And>m. m \<in> set rows \<Longrightarrow>
      (is_pending m \<and> id_col m \<notin> set (map id_col ?sel)) = (is_pending m \<and> m \<notin> set ?sel)"
  proof -
    fix m assume m: "m \<in> set rows"
    have "(id_col m \<in> id_col ` set ?sel) = (m \<in> set ?sel)"
    proof
      assume "id_col m \<in> id_col ` set ?sel"
      then obtain m' where m': "m' \<in> set ?sel" "id_col m = id_col m'" by auto
      then have "m' \<in> set rows" using sub by auto
      with inj m m'(2) have "m = m'" by (auto dest: inj_onD)
      with m'(1) show "m \<in> set ?sel" by simp
    qed simp
    then show "(is_pending m \<and> id_col m \<notin> set (map id_col ?sel)) = (is_pending m \<and> m \<notin> set ?sel)"
      by simp
  qed
  then have "filter (\<lambda>m. is_pending m \<and> id_col m \<notin> set (map id_col ?sel)) rows
      = filter (\<lambda>m. is_pending m \<and> m \<notin> set ?sel) rows"
    by (intro filter_cong refl)
  also have "\<dots> = filter (\<lambda>m. m \<notin> set ?sel) (filter is_pending rows)"
    by (simp add: conj_commute)
  finally have "pending_count (mark_delivered (map id_col ?sel) t rows)
      = length (filter (\<lambda>m. m \<notin> set ?sel) (filter is_pending rows))"
    by (simp only: pending_count_def is_pending_mark_delivered)
  also have "\<dots> = length (filter is_pending rows) - length ?sel"
  proof (rule length_filter_not_in)
    show "distinct (filter is_pending rows)" using drows by simp
    show "distinct ?sel" using drows by (simp add: select_pending_def)
    show "set ?sel \<subseteq> set (filter is_pending rows)" by (rule sub)
  qed
  also have "length ?sel = min bs (pending_count rows)"
    by (simp add: select_pending_def pending_count_def min.commute)
  finally show ?thesis by (simp add: pending_count_def)
qed

lemma all_delivered_cycle:
  assumes "distinct (map id_col rows)" "fault e = NoFault" "\<forall>m. deliver_to_primary (net e m)"
  shows "fst (drain_messages e bs rows)
           = Success \<lparr>processed = min bs (pending_count rows),
                delivered = min bs (pending_count rows), failed = 0\<rparr>"
    and "pending_count (step (Run e bs) rows) = pending_count rows - min bs (pending_count rows)"
    and "distinct (map id_col (step (Run e bs) rows))"
proof -
  have f: "filter (\<lambda>m. deliver_to_primary (net e m)) (select_pending bs rows) = select_pending bs rows"
    "filter (\<lambda>m. \<not> deliver_to_primary (net e m)) (select_pending bs rows) = []"
    using assms(3) by simp_all
  have len: "length (select_pending bs rows) = min bs (pending_count rows)"
    by (simp add: select_pending_def pending_count_def min.commute)
  show "fst (drain_messages e bs rows)
           = Success \<lparr>processed = min bs (pending_count rows),
                delivered = min bs (pending_count rows), failed = 0\<rparr>"
    unfolding drain_messages_response f len using assms(2) by simp
  have "step (Run e bs) rows = mark_delivered (map id_col (select_pending bs rows)) (now e) rows"
    using assms(2) by (simp add: drain_messages_table f)
  then show "pending_count (step (Run e bs) rows) = pending_count rows - min bs (pending_count rows)"
    using pending_after_mark_selected [OF assms(1)] by simp
  show "distinct (map id_col (step (Run e bs) rows))" using assms(1) by (simp only: step_ids)
qed

text \<open>
  C8. On a table with distinct ids and exactly 150 pending records, with batch size 100, a
  working database and every delivery attempt succeeding: the first cycle returns
  \<open>{processed: 100, delivered: 100, failed: 0}\<close> and leaves 50 pending, the second returns
  \<open>{processed: 50, delivered: 50, failed: 0}\<close> and leaves none pending, and a third returns
  \<open>{processed: 0, delivered: 0, failed: 0}\<close>.
\<close>

theorem drain_150_in_two_cycles:
  "distinct (map id_col rows) \<Longrightarrow> pending_count rows = 150 \<Longrightarrow>
   fault e1 = NoFault \<Longrightarrow> fault e2 = NoFault \<Longrightarrow> fault e3 = NoFault \<Longrightarrow>
   \<forall>m. deliver_to_primary (net e1 m) \<Longrightarrow> \<forall>m. deliver_to_primary (net e2 m) \<Longrightarrow>
   fst (drain_messages e1 100 rows) = Success \<lparr>processed = 100, delivered = 100, failed = 0\<rparr>
   \<and> pending_count (run_all [Run e1 100] rows) = 50
   \<and> fst (drain_messages e2 100 (run_all [Run e1 100] rows))
       = Success \<lparr>processed = 50, delivered = 50, failed = 0\<rparr>
   \<and> pending_count (run_all [Run e1 100, Run e2 100] rows) = 0
   \<and> fst (drain_messages e3 100 (run_all [Run e1 100, Run e2 100] rows))
       = Success \<lparr>processed = 0, delivered = 0, failed = 0\<rparr>"
proof -
  assume d: "distinct (map id_col rows)" and p: "pending_count rows = 150"
    and f1: "fault e1 = NoFault" and f2: "fault e2 = NoFault" and f3: "fault e3 = NoFault"
    and n1: "\<forall>m. deliver_to_primary (net e1 m)" and n2: "\<forall>m. deliver_to_primary (net e2 m)"
  let ?r1 = "step (Run e1 100) rows"
  let ?r2 = "step (Run e2 100) ?r1"
  note c1 = all_delivered_cycle [OF d f1 n1, of 100]
  have 1: "fst (drain_messages e1 100 rows) = Success \<lparr>processed = 100, delivered = 100, failed = 0\<rparr>"
    using c1(1) p by simp
  have p1: "pending_count ?r1 = 50" using c1(2) p by simp
  note c2 = all_delivered_cycle [OF c1(3) f2 n2, of 100]
  have 2: "fst (drain_messages e2 100 ?r1) = Success \<lparr>processed = 50, delivered = 50, failed = 0\<rparr>"
    using c2(1) p1 by simp
  have p2: "pending_count ?r2 = 0" using c2(2) p1 by simp
  have "select_pending 100 ?r2 = []"
    using p2 by (simp add: select_pending_def pending_count_def)
  then have 3: "fst (drain_messages e3 100 ?r2) = Success \<lparr>processed = 0, delivered = 0, failed = 0\<rparr>"
    using f3 by (simp add: drain_messages_response)
  have r1: "run_all [Run e1 100] rows = ?r1" by simp
  have r2: "run_all [Run e1 100, Run e2 100] rows = ?r2" by simp
  show ?thesis unfolding r1 r2 using 1 p1 2 p2 3 by (intro conjI)
qed

lemma backlog_distinct: "distinct (map id_col (backlog n))"
  by (simp add: backlog_def queued_message_def o_def distinct_map inj_on_def)

lemma backlog_pending: "pending_count (backlog n) = n"
  by (simp add: backlog_def pending_count_def queued_message_def is_pending_def filter_map o_def)

text \<open>The table of 150 pending rows with ids 0 to 149, and three cycles at times 7, 8 and 9.\<close>

theorem drain_150_in_two_cycles_witness:
  "distinct (map id_col (backlog 150)) \<and> pending_count (backlog 150) = 150
   \<and> fault (primary_up 7) = NoFault \<and> fault (primary_up 8) = NoFault \<and> fault (primary_up 9) = NoFault
   \<and> (\<forall>m. deliver_to_primary (net (primary_up 7) m))
   \<and> (\<forall>m. deliver_to_primary (net (primary_up 8) m))
   \<and> fst (drain_messages (primary_up 7) 100 (backlog 150))
       = Success \<lparr>processed = 100, delivered = 100, failed = 0\<rparr>
   \<and> pending_count (run_all [Run (primary_up 7) 100] (backlog 150)) = 50
   \<and> fst (drain_messages (primary_up 8) 100 (run_all [Run (primary_up 7) 100] (backlog 150)))
       = Success \<lparr>processed = 50, delivered = 50, failed = 0\<rparr>
   \<and> pending_count (run_all [Run (primary_up 7) 100, Run (primary_up 8) 100] (backlog 150)) = 0
   \<and> fst (drain_messages (primary_up 9) 100
          (run_all [Run (primary_up 7) 100, Run (primary_up 8) 100] (backlog 150)))
       = Success \<lparr>processed = 0, delivered = 0, failed = 0\<rparr>"
proof -
  have h1: "distinct (map id_col (backlog 150))" by (rule backlog_distinct)
  have h2: "pending_count (backlog 150) = 150" by (rule backlog_pending)
  have f: "fault (primary_up 7) = NoFault" "fault (primary_up 8) = NoFault"
    "fault (primary_up 9) = NoFault"
    by (simp_all add: primary_up_def)
  have n: "\<forall>m. deliver_to_primary (net (primary_up 7) m)"
    "\<forall>m. deliver_to_primary (net (primary_up 8) m)"
    by (simp_all add: primary_up_def)
  note t = drain_150_in_two_cycles [OF h1 h2 f n]
  show ?thesis using h1 h2 f n t by (intro conjI) (elim conjE, assumption)+
qed

end
